theory Spec2Isabelle
  imports Main "HOL-Library.Word"
begin

unbundle bit_operations_syntax

section \<open>GP2toOSP: extraction of OSP messages from a GP2 debug file\<close>

text \<open>
  A shallow embedding of \<^verbatim>\<open>GP2toOSP.cpp\<close>. The global arrays of the program are lists
  that are passed in and returned; C strings are \<^typ>\<open>string\<close>s without the terminator;
  a pointer into the line buffer is its offset, and \<open>NULL\<close> is \<open>None\<close>. Where the C++
  leaves the language's defined behaviour the model returns a \<open>fault\<close>.
\<close>

subsection \<open>Types and constants\<close>

type_synonym byte = "8 word"    \<comment> \<open>\<^verbatim>\<open>unsigned char\<close>\<close>
type_synonym uint = "32 word"   \<comment> \<open>\<^verbatim>\<open>unsigned int\<close>\<close>

definition MSGSIZE :: nat where
  "MSGSIZE = 2050"

definition WMSGSIZE :: nat where
  "WMSGSIZE = 100"

definition INT_MAX :: int where
  "INT_MAX = 2147483647"

definition INT_MIN :: int where
  "INT_MIN = - 2147483648"

text \<open>
  What the model reports when the program steps outside defined behaviour:
  a string function applied to a pointer computed from \<open>NULL\<close>, a store past the end of
  an array, a string function reading a buffer that holds no terminator, and signed
  overflow of an \<^verbatim>\<open>int\<close>.
\<close>

datatype fault = NullPointerUse | ArrayOverrun | StringNotTerminated | IntOverflow

subsection \<open>The C library's character and string functions\<close>

definition isspace :: "char \<Rightarrow> bool" where
  "isspace c = (of_char c = (32::nat) \<or> (9 \<le> (of_char c :: nat) \<and> (of_char c :: nat) \<le> 13))"

definition isdigit :: "char \<Rightarrow> bool" where
  "isdigit c = (48 \<le> (of_char c :: nat) \<and> (of_char c :: nat) \<le> 57)"

definition digit_val :: "char \<Rightarrow> nat" where
  "digit_val c = of_char c - 48"

definition decimal :: "string \<Rightarrow> nat" where
  "decimal ds = foldl (\<lambda>v c. 10 * v + digit_val c) 0 ds"

text \<open>An optional sign in front of a number: whether it is a minus, and the rest.\<close>

fun sign :: "string \<Rightarrow> bool \<times> string" where
  "sign [] = (False, [])"
| "sign (c # cs) =
     (if c = CHR ''-'' then (True, cs)
      else if c = CHR ''+'' then (False, cs)
      else (False, c # cs))"

text \<open>
  \<^verbatim>\<open>atoi\<close>: white space, an optional sign, then the longest run of decimal digits; 0 when
  there is no digit. (A digit string beyond the range of \<^verbatim>\<open>int\<close> is undefined in C; the
  model returns its mathematical value.)
\<close>

definition atoi :: "string \<Rightarrow> int" where
  "atoi s =
     (let (neg, r) = sign (dropWhile isspace s);
          v = int (decimal (takeWhile isdigit r))
      in if neg then - v else v)"

text \<open>
  \<^verbatim>\<open>strtok\<close> called until it returns \<open>NULL\<close>: the maximal runs of characters that are not
  delimiters, in order. \<open>cur\<close> is the token being read, reversed.
\<close>

fun strtok_from :: "string \<Rightarrow> string \<Rightarrow> string \<Rightarrow> string list" where
  "strtok_from delim cur [] = (if cur = [] then [] else [rev cur])"
| "strtok_from delim cur (c # cs) =
     (if c \<in> set delim
      then (if cur = [] then strtok_from delim [] cs
            else rev cur # strtok_from delim [] cs)
      else strtok_from delim (c # cur) cs)"

definition strtok :: "string \<Rightarrow> string \<Rightarrow> string list" where
  "strtok s delim = strtok_from delim [] s"

text \<open>\<^verbatim>\<open>strstr\<close>: the offset of the first occurrence of \<open>needle\<close>, or \<open>None\<close> for \<open>NULL\<close>.\<close>

fun strstr :: "string \<Rightarrow> string \<Rightarrow> nat option" where
  "strstr [] needle = (if needle = [] then Some 0 else None)"
| "strstr (c # cs) needle =
     (if take (length needle) (c # cs) = needle then Some 0
      else map_option Suc (strstr cs needle))"

subsection \<open>The list of wanted messages\<close>

text \<open>
  \<^verbatim>\<open>unsigned char WANTEDMsg[WMSGSIZE] = {2,6,7,56,8,11,12,15,28,50,64,75,0};\<close>
  the remaining entries of the array are zero-initialised.
\<close>

definition WANTEDMsg_init :: "byte list" where
  "WANTEDMsg_init = [2, 6, 7, 56, 8, 11, 12, 15, 28, 50, 64, 75, 0] @ replicate 87 0"

text \<open>\<^verbatim>\<open>wantedMsg\<close>: the scan \<^verbatim>\<open>for (int i=0; i<WMSGSIZE && WANTEDMsg[i]!=0; i++)\<close>.\<close>

function wantedMsg_scan :: "byte list \<Rightarrow> byte \<Rightarrow> nat \<Rightarrow> bool" where
  "wantedMsg_scan WANTEDMsg mid i =
     (if i < WMSGSIZE \<and> WANTEDMsg ! i \<noteq> 0
      then (if WANTEDMsg ! i = mid then True else wantedMsg_scan WANTEDMsg mid (i + 1))
      else False)"
  by pat_completeness auto
termination
  by (relation "measure (\<lambda>(W, mid, i). WMSGSIZE - i)") auto

declare wantedMsg_scan.simps [simp del]

definition wantedMsg :: "byte list \<Rightarrow> byte \<Rightarrow> bool" where
  "wantedMsg WANTEDMsg mid =
     (if WANTEDMsg ! 0 = 0 then True else wantedMsg_scan WANTEDMsg mid 0)"

text \<open>
  \<^verbatim>\<open>addWANTED\<close>. The first loop finds the end of the list:
  \<^verbatim>\<open>for (nextPos=0; nextPos<WMSGSIZE && WANTEDMsg[nextPos]!=0; nextPos++);\<close>
\<close>

function addWANTED_end :: "byte list \<Rightarrow> nat \<Rightarrow> nat" where
  "addWANTED_end WANTEDMsg nextPos =
     (if nextPos < WMSGSIZE \<and> WANTEDMsg ! nextPos \<noteq> 0
      then addWANTED_end WANTEDMsg (nextPos + 1)
      else nextPos)"
  by pat_completeness auto
termination
  by (relation "measure (\<lambda>(W, nextPos). WMSGSIZE - nextPos)") auto

declare addWANTED_end.simps [simp del]

text \<open>
  The token loop. Each token is converted by \<^verbatim>\<open>atoi\<close> and stored, as an
  \<^verbatim>\<open>unsigned char\<close>, at \<open>nextPos\<close>; only afterwards is \<open>nextPos\<close> compared with the
  size of the array. A store at an index that is not inside the array is a fault.
\<close>

fun addWANTED_tokens :: "string list \<Rightarrow> byte list \<Rightarrow> nat \<Rightarrow> fault + (byte list \<times> nat)" where
  "addWANTED_tokens [] WANTEDMsg nextPos = Inr (WANTEDMsg, nextPos)"
| "addWANTED_tokens (ptok # rest) WANTEDMsg nextPos =
     (if nextPos < length WANTEDMsg
      then (let W' = WANTEDMsg[nextPos := word_of_int (atoi ptok)]
            in addWANTED_tokens rest W'
                 (if nextPos < WMSGSIZE \<and> W' ! nextPos \<noteq> 0 then nextPos + 1 else nextPos))
      else Inl ArrayOverrun)"

text \<open>
  \<^verbatim>\<open>strncpy(mids, midList.c_str(), 300)\<close> into \<^verbatim>\<open>char mids[301]\<close> writes no terminator
  when the list has 300 characters or more, and \<^verbatim>\<open>strtok\<close> then reads past what was
  written.
\<close>

definition addWANTED :: "string \<Rightarrow> byte list \<Rightarrow> fault + byte list" where
  "addWANTED midList WANTEDMsg =
     (if 300 \<le> length midList then Inl StringNotTerminated
      else map_sum id fst
             (addWANTED_tokens (strtok midList '',;.:'') WANTEDMsg (addWANTED_end WANTEDMsg 0)))"

text \<open>Step 5 of \<^verbatim>\<open>main\<close>: the wanted list from the value of the option \<^verbatim>\<open>--wmsg\<close>.\<close>

definition main_wanted :: "string \<Rightarrow> byte list \<Rightarrow> fault + byte list" where
  "main_wanted s WANTEDMsg =
     (if s = ''ALL'' then Inr (WANTEDMsg[0 := 0])
      else if s = ''RINEX'' then Inr WANTEDMsg
      else if take 6 s = ''RINEX,'' then addWANTED (drop 6 s) WANTEDMsg
      else addWANTED s WANTEDMsg)"

subsection \<open>Time tags\<close>

text \<open>
  One \<^verbatim>\<open>%d\<close> of \<^verbatim>\<open>sscanf\<close>: white space, an optional sign and at least one decimal
  digit; the value and the text that follows. (As for \<^verbatim>\<open>atoi\<close>, the value is the
  mathematical one.)
\<close>

definition scan_d :: "string \<Rightarrow> (int \<times> string) option" where
  "scan_d s =
     (let (neg, r) = sign (dropWhile isspace s);
          ds = takeWhile isdigit r;
          v = int (decimal ds)
      in if ds = [] then None
         else Some (if neg then - v else v, dropWhile isdigit r))"

text \<open>A character of the format that stands for itself.\<close>

fun scan_lit :: "char \<Rightarrow> string \<Rightarrow> string option" where
  "scan_lit c [] = None"
| "scan_lit c (x # xs) = (if x = c then Some xs else None)"

text \<open>
  \<^verbatim>\<open>sscanf(s, "%d/%d/%d %d:%d:%d", &a, &b, &c, &d, &e, &f) == 6\<close>: the six numbers, or
  \<open>None\<close> when fewer than six were converted. The blank of the format skips white space.
\<close>

definition sscanf_dt :: "string \<Rightarrow> (int \<times> int \<times> int \<times> int \<times> int \<times> int) option" where
  "sscanf_dt s =
     Option.bind (scan_d s) (\<lambda>(a, s1).
     Option.bind (scan_lit (CHR ''/'') s1) (\<lambda>s2.
     Option.bind (scan_d s2) (\<lambda>(b, s3).
     Option.bind (scan_lit (CHR ''/'') s3) (\<lambda>s4.
     Option.bind (scan_d s4) (\<lambda>(c, s5).
     Option.bind (scan_d (dropWhile isspace s5)) (\<lambda>(d, s6).
     Option.bind (scan_lit (CHR '':'') s6) (\<lambda>s7.
     Option.bind (scan_d s7) (\<lambda>(e, s8).
     Option.bind (scan_lit (CHR '':'') s8) (\<lambda>s9.
     Option.bind (scan_d s9) (\<lambda>(f, s10).
     Some (a, b, c, d, e, f)))))))))))"

text \<open>The fields of \<^verbatim>\<open>struct tm\<close> that \<^verbatim>\<open>dt2time\<close> sets.\<close>

record tm =
  tm_mday :: int
  tm_mon :: int
  tm_year :: int
  tm_hour :: int
  tm_min :: int
  tm_sec :: int

text \<open>
  \<^verbatim>\<open>dt2time\<close>. The C library's \<^verbatim>\<open>mktime\<close> is a parameter: it stands for the conversion
  in the time zone of the system, with the remaining fields of the structure as
  \<^verbatim>\<open>localtime\<close> gave them for the moment of the call. \<^verbatim>\<open>time_t\<close> is \<^typ>\<open>int\<close>.
\<close>

definition dt2time :: "(tm \<Rightarrow> int) \<Rightarrow> string \<Rightarrow> int" where
  "dt2time mktime dateAndTime =
     (case sscanf_dt dateAndTime of
        Some (a, b, c, d, e, f) \<Rightarrow>
          mktime \<lparr>tm_mday = a, tm_mon = b - 1, tm_year = c - 1900,
                  tm_hour = d, tm_min = e, tm_sec = f\<rparr>
      | None \<Rightarrow> - 1)"

definition checkInterval :: "(tm \<Rightarrow> int) \<Rightarrow> string \<Rightarrow> int \<Rightarrow> int \<Rightarrow> bool" where
  "checkInterval mktime timeTag fromT toT =
     (let tag = dt2time mktime timeTag
      in if tag \<noteq> - 1 then fromT \<le> tag \<and> tag \<le> toT else False)"

text \<open>
  Step 6 of \<^verbatim>\<open>main\<close>: the window from the four options, or \<open>None\<close> where \<^verbatim>\<open>main\<close>
  logs \<^verbatim>\<open>Incorrect From or To date or time option\<close> and returns 1.
\<close>

definition main_interval ::
  "(tm \<Rightarrow> int) \<Rightarrow> string \<Rightarrow> string \<Rightarrow> string \<Rightarrow> string \<Rightarrow> (int \<times> int) option" where
  "main_interval mktime FROMDATE FROMTIME TODATE TOTIME =
     (let startTime = dt2time mktime (FROMDATE @ '' '' @ FROMTIME);
          endTime = dt2time mktime (TODATE @ '' '' @ TOTIME)
      in if startTime < 0 \<or> endTime < 0 \<or> startTime > endTime then None
         else Some (startTime, endTime))"

text \<open>
  An instance of the parameter for the examples below: the conversion on a system whose
  local time is UTC, for a month from 0 to 11 (days since 1970-01-01 by the usual
  count of the proleptic Gregorian calendar).
\<close>

definition days_from_civil :: "int \<Rightarrow> int \<Rightarrow> int \<Rightarrow> int" where
  "days_from_civil y m d =
     (let y' = (if m \<le> 2 then y - 1 else y);
          era = y' div 400;
          yoe = y' - era * 400;
          doy = (153 * (if m > 2 then m - 3 else m + 9) + 2) div 5 + d - 1;
          doe = yoe * 365 + yoe div 4 - yoe div 100 + doy
      in era * 146097 + doe - 719468)"

definition mktime_utc :: "tm \<Rightarrow> int" where
  "mktime_utc t =
     days_from_civil (tm_year t + 1900) (tm_mon t + 1) (tm_mday t) * 86400
       + tm_hour t * 3600 + tm_min t * 60 + tm_sec t"

subsection \<open>Decoding the message of a line\<close>

definition isxdigit :: "char \<Rightarrow> bool" where
  "isxdigit c =
     (isdigit c \<or> (65 \<le> (of_char c :: nat) \<and> (of_char c :: nat) \<le> 70)
                \<or> (97 \<le> (of_char c :: nat) \<and> (of_char c :: nat) \<le> 102))"

definition xdigit_val :: "char \<Rightarrow> nat" where
  "xdigit_val c =
     (if isdigit c then of_char c - 48
      else if (of_char c :: nat) \<le> 70 then of_char c - 55
      else of_char c - 87)"

definition hexadecimal :: "string \<Rightarrow> nat" where
  "hexadecimal ds = foldl (\<lambda>v c. 16 * v + xdigit_val c) 0 ds"

text \<open>
  \<^verbatim>\<open>sscanf(header, "%x", &ui) == 1\<close>: white space, an optional sign, an optional
  \<open>0x\<close> or \<open>0X\<close>, and at least one hexadecimal digit, read as far as the digits go;
  the value as an \<^verbatim>\<open>unsigned int\<close>.
\<close>

definition scan_x :: "string \<Rightarrow> uint option" where
  "scan_x s =
     (let (neg, r) = sign (dropWhile isspace s);
          r' = (if take 2 r = ''0x'' \<or> take 2 r = ''0X'' then drop 2 r else r);
          ds = takeWhile isxdigit r';
          v = (word_of_nat (hexadecimal ds) :: uint)
      in if ds = [] then None else Some (if neg then - v else v))"

text \<open>
  The loop \<^verbatim>\<open>while (header<tail && nbytesRead<MSGSIZE)\<close> of \<^verbatim>\<open>extractMsgs\<close>:
  \<open>header\<close> and \<open>tail\<close> are offsets into the line, \<open>OSPmsg\<close> is the global buffer.
  The result is \<open>nbytesRead\<close> and the buffer.
\<close>

function extractMsgs_bytes ::
  "string \<Rightarrow> nat \<Rightarrow> nat \<Rightarrow> nat \<Rightarrow> byte list \<Rightarrow> nat \<times> byte list" where
  "extractMsgs_bytes GP2line header tail nbytesRead OSPmsg =
     (if header < tail \<and> nbytesRead < MSGSIZE
      then (case scan_x (drop header GP2line) of
              Some ui \<Rightarrow>
                extractMsgs_bytes GP2line (header + 3) tail (nbytesRead + 1)
                  (OSPmsg[nbytesRead := ucast ui])
            | None \<Rightarrow> extractMsgs_bytes GP2line tail tail nbytesRead OSPmsg)
      else (nbytesRead, OSPmsg))"
  by pat_completeness auto
termination
  by (relation "measure (\<lambda>(l, header, tail, n, b). tail - header)") auto

declare extractMsgs_bytes.simps [simp del]

subsection \<open>Checking a decoded message\<close>

text \<open>What \<^verbatim>\<open>extractMsgs\<close> writes to the log, without the text of the time tag.\<close>

datatype event =
    TimeTagOutside            \<comment> \<open>\<^verbatim>\<open>Time tag outside interval\<close>\<close>
  | NoHeaderOrTail            \<comment> \<open>\<^verbatim>\<open>No message header or tailer\<close>\<close>
  | NoMessageData             \<comment> \<open>\<^verbatim>\<open>No message data\<close>\<close>
  | PayloadLenMismatch nat nat  \<comment> \<open>\<^verbatim>\<open>PayloadLen=..<>..=BytesRead\<close>\<close>
  | WrongChecksum             \<comment> \<open>\<^verbatim>\<open>Wrong checksum\<close>\<close>
  | WrittenMID byte           \<comment> \<open>\<^verbatim>\<open>written MID\<close>\<close>
  | SkippedMID byte           \<comment> \<open>\<^verbatim>\<open>skipped MID\<close>\<close>
  | CannotWrite               \<comment> \<open>\<^verbatim>\<open>Cannot writte to binary output file\<close>\<close>

text \<open>\<^verbatim>\<open>(OSPmsg[i] << 8) | OSPmsg[i+1]\<close>, as an \<^verbatim>\<open>unsigned int\<close>.\<close>

definition be16 :: "byte list \<Rightarrow> nat \<Rightarrow> uint" where
  "be16 OSPmsg i = push_bit 8 (ucast (OSPmsg ! i)) OR ucast (OSPmsg ! (i + 1))"

text \<open>
  The checksum loop
  \<^verbatim>\<open>for (i=0; i<payloadLen; i++) { computedCheck += OSPmsg[i+2]; computedCheck &= 0x7FFF; }\<close>
\<close>

function computedCheck_loop :: "byte list \<Rightarrow> nat \<Rightarrow> nat \<Rightarrow> uint \<Rightarrow> uint" where
  "computedCheck_loop OSPmsg payloadLen i computedCheck =
     (if i < payloadLen
      then computedCheck_loop OSPmsg payloadLen (i + 1)
             ((computedCheck + ucast (OSPmsg ! (i + 2))) AND 0x7FFF)
      else computedCheck)"
  by pat_completeness auto
termination
  by (relation "measure (\<lambda>(b, payloadLen, i, c). payloadLen - i)") auto

declare computedCheck_loop.simps [simp del]

text \<open>
  The checks of \<^verbatim>\<open>extractMsgs\<close> on the decoded bytes (length, payload length,
  checksum): the event logged for the message that fails one, or the payload length.
\<close>

definition extractMsgs_check :: "byte list \<Rightarrow> nat \<Rightarrow> event + uint" where
  "extractMsgs_check OSPmsg nbytesRead =
     (if nbytesRead \<ge> MSGSIZE \<or> nbytesRead \<le> 4 then Inl NoMessageData
      else let payloadLen = be16 OSPmsg 0
           in if (word_of_nat nbytesRead :: uint) \<noteq> payloadLen + 4
              then Inl (PayloadLenMismatch (unat payloadLen) (nbytesRead - 4))
              else let computedCheck = computedCheck_loop OSPmsg (unat payloadLen) 0 0;
                       messageCheck = be16 OSPmsg (unat payloadLen + 2)
                   in if computedCheck \<noteq> messageCheck then Inl WrongChecksum
                      else Inr payloadLen)"

subsection \<open>The output file\<close>

text \<open>
  The output stream: \<open>accepts k\<close> is the number of bytes that the \<open>k\<close>-th call of
  \<^verbatim>\<open>fwrite\<close> (counted from 0) can get written at most; \<open>calls\<close> records, for every
  call so far, the number of bytes requested and the number reported as written;
  \<open>written\<close> is the content of the file.
\<close>

record sink =
  accepts :: "nat \<Rightarrow> nat"
  calls :: "(nat \<times> nat) list"
  written :: "byte list"

definition fwrite :: "byte list \<Rightarrow> nat \<Rightarrow> sink \<Rightarrow> nat \<times> sink" where
  "fwrite buf n out =
     (let r = min n (accepts out (length (calls out)))
      in (r, out\<lparr>calls := calls out @ [(n, r)], written := written out @ take r buf\<rparr>))"

subsection \<open>The extraction loop\<close>

text \<open>
  What \<^verbatim>\<open>extractMsgs\<close> changes: the global buffer \<open>OSPmsg\<close>, the output file, the log
  and its counter \<open>nMessages\<close>.
\<close>

record xstate =
  OSPmsg :: "byte list"
  outFile :: sink
  plog :: "event list"
  nMessages :: int

definition log_event :: "event \<Rightarrow> xstate \<Rightarrow> xstate" where
  "log_event ev st = st\<lparr>plog := plog st @ [ev]\<rparr>"

text \<open>
  The body of the \<^verbatim>\<open>while (fgets(...) != NULL)\<close> loop for one line. The result is a
  fault, or the new state together with \<open>Some r\<close> when the body executes
  \<^verbatim>\<open>return r\<close> and \<open>None\<close> when the loop goes on.

  \<^verbatim>\<open>tail = strstr(header+5, "B0 B3")\<close> is executed before \<open>header\<close> is compared with
  \<open>NULL\<close>: with no header in the line the search starts from the invalid pointer
  \<open>NULL+5\<close>.
\<close>

definition extractMsgs_line ::
  "(tm \<Rightarrow> int) \<Rightarrow> byte list \<Rightarrow> int \<Rightarrow> int \<Rightarrow> string \<Rightarrow> xstate
     \<Rightarrow> fault + (int option \<times> xstate)" where
  "extractMsgs_line mktime WANTEDMsg fromT toT GP2line st =
     (if \<not> checkInterval mktime GP2line fromT toT
      then Inr (None, log_event TimeTagOutside st)
      else case strstr GP2line ''A0 A2'' of
        None \<Rightarrow> Inl NullPointerUse
      | Some header \<Rightarrow>
         (case strstr (drop (header + 5) GP2line) ''B0 B3'' of
            None \<Rightarrow> Inr (None, log_event NoHeaderOrTail st)
          | Some off \<Rightarrow>
             (let tail = header + 5 + off;
                  (nbytesRead, buf) = extractMsgs_bytes GP2line (header + 6) tail 0 (OSPmsg st);
                  st1 = st\<lparr>OSPmsg := buf\<rparr>
              in case extractMsgs_check buf nbytesRead of
                   Inl ev \<Rightarrow> Inr (None, log_event ev st1)
                 | Inr payloadLen \<Rightarrow>
                    if wantedMsg WANTEDMsg (buf ! 2)
                    then (let (r, out) = fwrite buf (unat payloadLen + 2) (outFile st1)
                          in if r = unat payloadLen + 2
                             then (if nMessages st1 = INT_MAX then Inl IntOverflow
                                   else Inr (None,
                                     log_event (WrittenMID (buf ! 2))
                                       (st1\<lparr>outFile := out, nMessages := nMessages st1 + 1\<rparr>)))
                             else (if - nMessages st1 - 4 < INT_MIN then Inl IntOverflow
                                   else Inr (Some (- nMessages st1 - 4),
                                     log_event CannotWrite (st1\<lparr>outFile := out\<rparr>))))
                    else Inr (None, log_event (SkippedMID (buf ! 2)) st1))))"

text \<open>The loop over the lines that \<^verbatim>\<open>fgets\<close> delivers, and \<^verbatim>\<open>return nMessages\<close> after it.\<close>

fun extractMsgs_loop ::
  "(tm \<Rightarrow> int) \<Rightarrow> byte list \<Rightarrow> int \<Rightarrow> int \<Rightarrow> string list \<Rightarrow> xstate
     \<Rightarrow> fault + (int \<times> xstate)" where
  "extractMsgs_loop mktime WANTEDMsg fromT toT [] st = Inr (nMessages st, st)"
| "extractMsgs_loop mktime WANTEDMsg fromT toT (GP2line # rest) st =
     (case extractMsgs_line mktime WANTEDMsg fromT toT GP2line st of
        Inl flt \<Rightarrow> Inl flt
      | Inr (Some r, st') \<Rightarrow> Inr (r, st')
      | Inr (None, st') \<Rightarrow> extractMsgs_loop mktime WANTEDMsg fromT toT rest st')"

text \<open>
  \<^verbatim>\<open>extractMsgs\<close>: \<open>inFile\<close> is the list of the lines as the successive calls of
  \<^verbatim>\<open>fgets\<close> deliver them (C strings, so without a NUL character inside), \<open>OSPmsg0\<close>
  the content of the global buffer at the call. The result is the returned \<^verbatim>\<open>int\<close>
  and the final state.
\<close>

definition extractMsgs ::
  "(tm \<Rightarrow> int) \<Rightarrow> byte list \<Rightarrow> byte list \<Rightarrow> string list \<Rightarrow> int \<Rightarrow> int \<Rightarrow> sink
     \<Rightarrow> fault + (int \<times> xstate)" where
  "extractMsgs mktime WANTEDMsg OSPmsg0 inFile fromT toT out =
     extractMsgs_loop mktime WANTEDMsg fromT toT inFile
       \<lparr>OSPmsg = OSPmsg0, outFile = out, plog = [], nMessages = 0\<rparr>"

text \<open>The global buffer \<^verbatim>\<open>unsigned char OSPmsg[MSGSIZE]\<close> at program start.\<close>

definition OSPmsg_init :: "byte list" where
  "OSPmsg_init = replicate MSGSIZE 0"

text \<open>An output file that takes everything, and one whose \<open>k\<close>-th write (from 0) fails.\<close>

definition sink_ok :: sink where
  "sink_ok = \<lparr>accepts = (\<lambda>k. 65537), calls = [], written = []\<rparr>"

definition sink_failing :: "nat \<Rightarrow> sink" where
  "sink_failing k = \<lparr>accepts = (\<lambda>j. if j = k then 0 else 65537), calls = [], written = []\<rparr>"

subsection \<open>Auxiliary notions for the proofs\<close>

text \<open>
  The bytes that the decoding loop stores, as a list: \<open>room\<close> is the number of entries
  of \<open>OSPmsg\<close> still free. The loop is related to it in \<open>extractMsgs_bytes_decoded\<close>.
\<close>

function decoded :: "string \<Rightarrow> nat \<Rightarrow> nat \<Rightarrow> nat \<Rightarrow> byte list" where
  "decoded GP2line header tail room =
     (if header < tail \<and> 0 < room
      then (case scan_x (drop header GP2line) of
              Some ui \<Rightarrow> ucast ui # decoded GP2line (header + 3) tail (room - 1)
            | None \<Rightarrow> [])
      else [])"
  by pat_completeness auto
termination
  by (relation "measure (\<lambda>(l, header, tail, room). tail - header)") auto

declare decoded.simps [simp del]

text \<open>Every call of \<^verbatim>\<open>fwrite\<close> in the record wrote all that was requested.\<close>

definition all_written :: "(nat \<times> nat) list \<Rightarrow> bool" where
  "all_written cs = list_all (\<lambda>(req, got). got = req) cs"

subsection \<open>Example data\<close>

text \<open>
  A line with a message of one payload byte (MID \<open>0x33\<close>, checksum \<open>0x0033\<close>), the same
  line cut before the tail, and a line with a tail but no header.
\<close>

definition line_ok :: string where
  "line_ok = ''29/10/2014 20:31:08.942 (0) A0 A2 00 01 33 00 33 B0 B3''"

definition line_no_tail :: string where
  "line_no_tail = ''29/10/2014 20:31:08.942 (0) A0 A2 00 01 33''"

definition line_no_header :: string where
  "line_no_header = ''29/10/2014 20:31:08.942 (0) B0 B3''"

text \<open>
  The buffer after decoding the line of the program's own documentation,
  \<^verbatim>\<open>A0 A2 00 12 33 06 00 00 00 00 00 00 00 19 00 00 00 00 00 00 64 E1 01 97 B0 B3\<close>.
\<close>

definition msg_example :: "byte list" where
  "msg_example =
     [0x00, 0x12, 0x33, 0x06, 0x00, 0x00, 0x00, 0x00, 0x00, 0x00, 0x00, 0x19,
      0x00, 0x00, 0x00, 0x00, 0x00, 0x00, 0x64, 0xE1, 0x01, 0x97] @ replicate 2028 0"

text \<open>The wanted list after \<^verbatim>\<open>--wmsg=ALL\<close>.\<close>

definition WANTEDMsg_all :: "byte list" where
  "WANTEDMsg_all = WANTEDMsg_init[0 := 0]"

text \<open>The state in which \<^verbatim>\<open>extractMsgs\<close> starts, for an output file \<open>out\<close>.\<close>

definition xstate_init :: "sink \<Rightarrow> xstate" where
  "xstate_init out = \<lparr>OSPmsg = OSPmsg_init, outFile = out, plog = [], nMessages = 0\<rparr>"

section \<open>Properties of the wanted list\<close>

lemma wantedMsg_scan_set:
  "length W = WMSGSIZE \<Longrightarrow>
   wantedMsg_scan W mid i = (mid \<in> set (takeWhile (\<lambda>b. b \<noteq> 0) (drop i W)))"
proof (induction W mid i rule: wantedMsg_scan.induct)
  case (1 W mid i)
  show ?case
  proof (cases "i < WMSGSIZE")
    case True
    then have d: "drop i W = W ! i # drop (i + 1) W"
      using 1(2) by (simp add: Cons_nth_drop_Suc)
    show ?thesis
    proof (cases "W ! i = 0")
      case True
      then show ?thesis using d by (subst wantedMsg_scan.simps) simp
    next
      case False
      then show ?thesis
        using d 1(1)[OF _ _ 1(2)] \<open>i < WMSGSIZE\<close>
        by (subst wantedMsg_scan.simps) auto
    qed
  next
    case False
    then show ?thesis using 1(2) by (subst wantedMsg_scan.simps) simp
  qed
qed

lemma wantedMsg_scan_zero: "\<not> wantedMsg_scan W 0 i"
proof (induction W "0::byte" i rule: wantedMsg_scan.induct)
  case (1 W i)
  then show ?case by (subst wantedMsg_scan.simps) auto
qed

lemma length_WANTEDMsg_init: "length WANTEDMsg_init = WMSGSIZE"
  by (simp add: WANTEDMsg_init_def WMSGSIZE_def)

lemma main_wanted_ALL:
  "main_wanted ''ALL'' WANTEDMsg_init =
     Inr ([0, 6, 7, 56, 8, 11, 12, 15, 28, 50, 64, 75, 0] @ replicate 87 0)"
  by (simp add: main_wanted_def WANTEDMsg_init_def)

lemma main_wanted_RINEX: "main_wanted ''RINEX'' WANTEDMsg_init = Inr WANTEDMsg_init"
  by (simp add: main_wanted_def)

lemma main_wanted_RINEX_99:
  "main_wanted ''RINEX,99'' WANTEDMsg_init =
     Inr ([2, 6, 7, 56, 8, 11, 12, 15, 28, 50, 64, 75, 99] @ replicate 87 0)"
  by code_simp

text \<open>
  Claim C8. With the option value \<open>ALL\<close> every MID (every value of an unsigned byte) is
  wanted; with \<open>RINEX\<close> exactly the MIDs 2, 6, 7, 56, 8, 11, 12, 15, 28, 50, 64 and 75 are
  wanted; with \<open>RINEX,99\<close> exactly those and 99.
\<close>

theorem wanted_lists:
  "(\<exists>W. main_wanted ''ALL'' WANTEDMsg_init = Inr W \<and> (\<forall>mid. wantedMsg W mid)) \<and>
   (\<exists>W. main_wanted ''RINEX'' WANTEDMsg_init = Inr W \<and>
      (\<forall>mid. wantedMsg W mid = (mid \<in> {2, 6, 7, 56, 8, 11, 12, 15, 28, 50, 64, 75}))) \<and>
   (\<exists>W. main_wanted ''RINEX,99'' WANTEDMsg_init = Inr W \<and>
      (\<forall>mid. wantedMsg W mid = (mid \<in> {2, 6, 7, 56, 8, 11, 12, 15, 28, 50, 64, 75, 99})))"
proof (intro conjI)
  show "\<exists>W. main_wanted ''ALL'' WANTEDMsg_init = Inr W \<and> (\<forall>mid. wantedMsg W mid)"
    by (simp add: main_wanted_ALL wantedMsg_def)
next
  have "wantedMsg WANTEDMsg_init mid = (mid \<in> {2, 6, 7, 56, 8, 11, 12, 15, 28, 50, 64, 75})"
    for mid
    unfolding wantedMsg_def wantedMsg_scan_set [OF length_WANTEDMsg_init]
    by (auto simp: WANTEDMsg_init_def)
  then show "\<exists>W. main_wanted ''RINEX'' WANTEDMsg_init = Inr W \<and>
      (\<forall>mid. wantedMsg W mid = (mid \<in> {2, 6, 7, 56, 8, 11, 12, 15, 28, 50, 64, 75}))"
    by (simp add: main_wanted_RINEX)
next
  let ?W = "[2, 6, 7, 56, 8, 11, 12, 15, 28, 50, 64, 75, 99] @ replicate 87 (0::byte)"
  have len: "length ?W = WMSGSIZE"
    by (simp add: WMSGSIZE_def)
  have "wantedMsg ?W mid = (mid \<in> {2, 6, 7, 56, 8, 11, 12, 15, 28, 50, 64, 75, 99})" for mid
    unfolding wantedMsg_def wantedMsg_scan_set [OF len]
    by auto
  then show "\<exists>W. main_wanted ''RINEX,99'' WANTEDMsg_init = Inr W \<and>
      (\<forall>mid. wantedMsg W mid = (mid \<in> {2, 6, 7, 56, 8, 11, 12, 15, 28, 50, 64, 75, 99}))"
    by (simp only: main_wanted_RINEX_99) blast
qed

theorem wanted_lists_witness:
  "wantedMsg (WANTEDMsg_init[0 := 0]) 200 \<and> wantedMsg WANTEDMsg_init 56 \<and>
   \<not> wantedMsg WANTEDMsg_init 99 \<and>
   wantedMsg (WANTEDMsg_init[12 := 99]) 99 \<and> \<not> wantedMsg (WANTEDMsg_init[12 := 99]) 98"
proof -
  have a: "main_wanted ''ALL'' WANTEDMsg_init = Inr (WANTEDMsg_init[0 := 0])"
    by (simp add: main_wanted_def)
  have b: "main_wanted ''RINEX,99'' WANTEDMsg_init = Inr (WANTEDMsg_init[12 := 99])"
    unfolding main_wanted_RINEX_99 by (simp add: WANTEDMsg_init_def)
  show ?thesis
    using wanted_lists unfolding a b main_wanted_RINEX by simp
qed

text \<open>
  Claim C9. When the first entry of the wanted list is not 0 (the list does not stand
  for "all"), MID 0 is not wanted: the scan stops at the first 0 entry and compares
  only the nonzero entries before it.
\<close>

theorem sentinel_never_wanted:
  "WANTEDMsg ! 0 \<noteq> 0 \<Longrightarrow> \<not> wantedMsg WANTEDMsg 0"
  by (simp add: wantedMsg_def wantedMsg_scan_zero)

theorem sentinel_never_wanted_witness:
  "WANTEDMsg_init ! 0 \<noteq> 0 \<and> \<not> wantedMsg WANTEDMsg_init 0"
proof -
  have h: "WANTEDMsg_init ! 0 \<noteq> 0"
    by (simp add: WANTEDMsg_init_def)
  from sentinel_never_wanted [OF h] h show ?thesis by simp
qed

lemma addWANTED_last_entry:
  "main_wanted (''RINEX,'' @ concat (replicate 87 ''1,'') @ ''1'') WANTEDMsg_init
     = Inr ([2, 6, 7, 56, 8, 11, 12, 15, 28, 50, 64, 75] @ replicate 88 1)"
  by code_simp

text \<open>
  Claim C6 says that \<^verbatim>\<open>addWANTED\<close> never writes outside the array of 100 entries. It
  does: with the 12 default entries in place, the option value \<open>RINEX,\<close> followed by 89
  identifiers \<open>1\<close> fills the entries 12 to 99 with the first 88 of them, leaves
  \<open>nextPos\<close> at 100, and stores the 89th at \<^verbatim>\<open>WANTEDMsg[100]\<close>: the comparison of
  \<open>nextPos\<close> with \<^verbatim>\<open>WMSGSIZE\<close> comes after the store. (With 88 identifiers the array is
  filled to its last entry and nothing is stored outside, \<open>addWANTED_last_entry\<close>.)
\<close>

theorem addWANTED_overrun:
  "main_wanted (''RINEX,'' @ concat (replicate 88 ''1,'') @ ''1'') WANTEDMsg_init
     = Inl ArrayOverrun"
  by code_simp



section \<open>The time window\<close>

lemma main_interval_Some:
  "main_interval mktime fd ft td tt = Some (fromT, toT) \<Longrightarrow> 0 \<le> fromT \<and> fromT \<le> toT"
  by (auto simp: main_interval_def Let_def split: if_splits)

lemma main_interval_default:
  "main_interval mktime_utc ''01/01/2014'' ''00:00:00'' ''31/12/2020'' ''23:59:59''
     = Some (1388534400, 1609459199)"
  by code_simp

text \<open>
  Claim C7. \<^verbatim>\<open>dt2time\<close> returns \<open>-1\<close> for a time tag that cannot be converted. For a
  time tag that it converts to \<open>t\<close>, \<^verbatim>\<open>checkInterval\<close> is true exactly when
  \<open>fromT \<le> t \<le> toT\<close>, both ends included; for a time tag that is not converted, and
  in particular for one in which \<^verbatim>\<open>sscanf\<close> does not find the six numbers, it is false.
  For a window that \<^verbatim>\<open>main\<close> admits (\<open>0 \<le> fromT\<close>, see \<open>main_interval_Some\<close>) the
  result is the inclusion of the value of \<^verbatim>\<open>mktime\<close> whenever the six numbers are found.
\<close>

theorem checkInterval_inclusive:
  "(dt2time mktime timeTag \<noteq> - 1 \<longrightarrow>
      checkInterval mktime timeTag fromT toT
        = (fromT \<le> dt2time mktime timeTag \<and> dt2time mktime timeTag \<le> toT)) \<and>
   (dt2time mktime timeTag = - 1 \<longrightarrow> \<not> checkInterval mktime timeTag fromT toT) \<and>
   (sscanf_dt timeTag = None \<longrightarrow> dt2time mktime timeTag = - 1) \<and>
   (0 \<le> fromT \<longrightarrow>
      checkInterval mktime timeTag fromT toT
        = (case sscanf_dt timeTag of
             None \<Rightarrow> False
           | Some (a, b, c, d, e, f) \<Rightarrow>
               fromT \<le> mktime \<lparr>tm_mday = a, tm_mon = b - 1, tm_year = c - 1900,
                                tm_hour = d, tm_min = e, tm_sec = f\<rparr> \<and>
               mktime \<lparr>tm_mday = a, tm_mon = b - 1, tm_year = c - 1900,
                       tm_hour = d, tm_min = e, tm_sec = f\<rparr> \<le> toT))"
  by (auto simp: checkInterval_def dt2time_def Let_def split: option.splits)

lemma dt2time_2014_start: "dt2time mktime_utc ''01/01/2014 00:00:00'' = 1388534400"
  by code_simp

lemma dt2time_2020_end: "dt2time mktime_utc ''31/12/2020 23:59:59'' = 1609459199"
  by code_simp

lemma dt2time_2013_end: "dt2time mktime_utc ''31/12/2013 23:59:59'' = 1388534399"
  by code_simp

lemma dt2time_2021_start: "dt2time mktime_utc ''01/01/2021 00:00:00'' = 1609459200"
  by code_simp

lemma sscanf_dt_dashes: "sscanf_dt ''29-10-2014 20:31:08.942'' = None"
  by code_simp

theorem checkInterval_inclusive_witness:
  "checkInterval mktime_utc ''01/01/2014 00:00:00'' 1388534400 1609459199 \<and>
   checkInterval mktime_utc ''31/12/2020 23:59:59'' 1388534400 1609459199 \<and>
   \<not> checkInterval mktime_utc ''31/12/2013 23:59:59'' 1388534400 1609459199 \<and>
   \<not> checkInterval mktime_utc ''01/01/2021 00:00:00'' 1388534400 1609459199 \<and>
   \<not> checkInterval mktime_utc ''29-10-2014 20:31:08.942'' 1388534400 1609459199"
  using checkInterval_inclusive [of mktime_utc "''01/01/2014 00:00:00''" 1388534400 1609459199]
    checkInterval_inclusive [of mktime_utc "''31/12/2020 23:59:59''" 1388534400 1609459199]
    checkInterval_inclusive [of mktime_utc "''31/12/2013 23:59:59''" 1388534400 1609459199]
    checkInterval_inclusive [of mktime_utc "''01/01/2021 00:00:00''" 1388534400 1609459199]
    checkInterval_inclusive [of mktime_utc "''29-10-2014 20:31:08.942''" 1388534400 1609459199]
  unfolding dt2time_2014_start dt2time_2020_end dt2time_2013_end dt2time_2021_start
    sscanf_dt_dashes
  by simp

section \<open>The checks on a decoded message\<close>

subsection \<open>Word arithmetic\<close>

lemma or_low_nat: "y < 256 \<Longrightarrow> push_bit 8 x OR y = push_bit 8 x + (y::nat)"
proof -
  assume y: "y < 256"
  have ty: "take_bit 8 y = y" using y by (simp add: take_bit_nat_eq_self_iff)
  have "\<not> bit (push_bit 8 x) n \<or> \<not> bit y n" for n
  proof (cases "n < 8")
    case True
    then show ?thesis by (simp add: bit_push_bit_iff)
  next
    case False
    have "bit y n = bit (take_bit 8 y) n" by (simp add: ty)
    also have "\<dots> = False" using False by (simp add: bit_take_bit_iff)
    finally show ?thesis by simp
  qed
  then show ?thesis by (rule disjunctive_add [symmetric])
qed

lemma unat_byte_less: "unat (b::byte) < 256"
  using unsigned_less [of b, where 'a = nat] by simp

lemma unat_byte_less_32768: "unat (b::byte) < 32768"
  by (rule less_trans [OF unat_byte_less]) simp

lemma unat_ucast_byte: "unat (ucast (b::byte) :: uint) = unat b"
  by (simp add: unsigned_ucast_eq take_bit_nat_eq_self_iff)
     (rule less_trans [OF unat_byte_less], simp)

lemma be16_unat: "unat (be16 B i) = 256 * unat (B ! i) + unat (B ! (i + 1))"
proof -
  let ?a = "unat (B ! i)" and ?b = "unat (B ! (i + 1))"
  have a: "?a < 256" and b: "?b < 256" by (rule unat_byte_less)+
  have "unat (be16 B i) = take_bit 32 (push_bit 8 ?a) OR ?b"
    by (simp add: be16_def unsigned_or_eq unsigned_push_bit_eq unat_ucast_byte)
  also have "take_bit 32 (push_bit 8 ?a) = push_bit 8 ?a"
    using a by (simp add: take_bit_nat_eq_self_iff push_bit_eq_mult)
  also have "push_bit 8 ?a OR ?b = push_bit 8 ?a + ?b"
    using b by (rule or_low_nat)
  finally show ?thesis by (simp add: push_bit_eq_mult)
qed

lemma be16_less: "unat (be16 B i) < 65536"
  using unat_byte_less [of "B ! i"] unat_byte_less [of "B ! (i + 1)"]
  by (simp add: be16_unat)

lemma be16_update_other:
  "k \<noteq> i \<Longrightarrow> k \<noteq> i + 1 \<Longrightarrow> be16 (msg[k := v]) i = be16 msg i"
  by (simp add: be16_def)

lemma and_7FFF: "unat ((c + ucast (b::byte)) AND (0x7FFF::uint)) = (unat c + unat b) mod 32768"
proof -
  have m: "(0x7FFF::uint) = mask 15" by (simp add: mask_eq_exp_minus_1)
  have "unat ((c + ucast b) AND (0x7FFF::uint)) = unat (take_bit 15 (c + ucast b))"
    by (simp only: m take_bit_eq_mask)
  also have "\<dots> = take_bit 15 (unat (c + ucast b))"
    by (simp add: unsigned_take_bit_eq)
  also have "\<dots> = ((unat c + unat b) mod 2 ^ 32) mod 2 ^ 15"
    by (simp add: take_bit_eq_mod unat_word_ariths unat_ucast_byte)
  also have "\<dots> = (unat c + unat b) mod 32768"
    by (simp add: mod_mod_cancel)
  finally show ?thesis .
qed

lemma and_7FFF_nat: "(s::nat) AND 0x7FFF = s mod 32768"
proof -
  have "(0x7FFF::nat) = mask 15" by (simp add: mask_eq_exp_minus_1)
  then show ?thesis by (simp only: take_bit_eq_mask [symmetric] take_bit_eq_mod) simp
qed

lemma mod_differs:
  fixes m :: nat
  assumes x: "x < m" and y: "y < m" and ne: "x \<noteq> y"
  shows "(x + R) mod m \<noteq> (y + R) mod m"
proof
  assume "(x + R) mod m = (y + R) mod m"
  then have "int (x + R) mod int m = int (y + R) mod int m"
    by (simp only: of_nat_mod [symmetric])
  then have "int m dvd (int (x + R) - int (y + R))"
    by (simp only: mod_eq_dvd_iff)
  then have d: "int m dvd (int x - int y)"
    by simp
  have "int x - int y \<noteq> 0" using ne by simp
  from dvd_imp_le_int [OF this d] x y show False
    by simp
qed

lemma word_of_nat_eq_plus4:
  assumes "n < MSGSIZE" and "unat (w::uint) < 65536"
  shows "((word_of_nat n :: uint) = w + 4) = (n = unat w + 4)"
proof -
  have n: "unat (word_of_nat n :: uint) = n"
    using assms(1) by (simp add: unat_of_nat MSGSIZE_def)
  have w: "unat (w + 4) = unat w + 4"
    using assms(2) by (simp add: unat_word_ariths)
  show ?thesis
    using n w by (metis word_unat_eq_iff)
qed

subsection \<open>The checksum loop and the sequence of checks\<close>

lemma computedCheck_loop_unat:
  "unat c < 32768 \<Longrightarrow> i \<le> p \<Longrightarrow>
   unat (computedCheck_loop B p i c) = (unat c + (\<Sum>k = i..<p. unat (B ! (k + 2)))) mod 32768"
proof (induction B p i c rule: computedCheck_loop.induct)
  case (1 B p i c)
  show ?case
  proof (cases "i < p")
    case True
    let ?c' = "(c + ucast (B ! (i + 2))) AND (0x7FFF::uint)"
    have c': "unat ?c' = (unat c + unat (B ! (i + 2))) mod 32768"
      by (rule and_7FFF)
    then have lt: "unat ?c' < 32768" by simp
    have "unat (computedCheck_loop B p i c) = unat (computedCheck_loop B p (i + 1) ?c')"
      using True by (subst computedCheck_loop.simps) simp
    also have "\<dots> = (unat ?c' + (\<Sum>k = i + 1..<p. unat (B ! (k + 2)))) mod 32768"
      using 1(1) [OF True lt] True by simp
    also have "\<dots> = (unat c + (unat (B ! (i + 2)) + (\<Sum>k = i + 1..<p. unat (B ! (k + 2))))) mod 32768"
      unfolding c' by (simp add: mod_add_left_eq add.assoc)
    also have "unat (B ! (i + 2)) + (\<Sum>k = i + 1..<p. unat (B ! (k + 2)))
                 = (\<Sum>k = i..<p. unat (B ! (k + 2)))"
      using True by (simp add: sum.atLeast_Suc_lessThan)
    finally show ?thesis .
  next
    case False
    with 1(3) have "i = p" by simp
    then show ?thesis using 1(2) by (subst computedCheck_loop.simps) simp
  qed
qed

lemma payload_sum:
  assumes "p + 2 \<le> length msg"
  shows "sum_list (map unat (take p (drop 2 msg))) = (\<Sum>k = 0..<p. unat (msg ! (k + 2)))"
proof -
  have "sum_list (map unat (take p (drop 2 msg)))
          = (\<Sum>k = 0..<length (map unat (take p (drop 2 msg))). map unat (take p (drop 2 msg)) ! k)"
    by (rule sum_list_sum_nth)
  also have "\<dots> = (\<Sum>k = 0..<p. unat (msg ! (k + 2)))"
    using assms by (intro sum.cong) (auto simp: add.commute)
  finally show ?thesis .
qed

lemma payload_sum_update:
  assumes j: "j < p" and len: "j + 2 < length msg"
  shows "\<exists>R. (\<Sum>k = 0..<p. unat (msg ! (k + 2))) = unat (msg ! (j + 2)) + R \<and>
             (\<Sum>k = 0..<p. unat (msg[j + 2 := v] ! (k + 2))) = unat v + R"
proof -
  let ?f = "\<lambda>k. unat (msg ! (k + 2))" and ?g = "\<lambda>k. unat (msg[j + 2 := v] ! (k + 2))"
  have jin: "j \<in> {0..<p}" using j by simp
  have f: "sum ?f {0..<p} = ?f j + sum ?f ({0..<p} - {j})"
    by (rule sum.remove [OF _ jin]) simp
  have g: "sum ?g {0..<p} = ?g j + sum ?g ({0..<p} - {j})"
    by (rule sum.remove [OF _ jin]) simp
  have "sum ?g ({0..<p} - {j}) = sum ?f ({0..<p} - {j})"
    by (rule sum.cong) auto
  moreover have "?g j = unat v" using len by simp
  ultimately show ?thesis using f g by auto
qed

lemma extractMsgs_check_cases:
  "extractMsgs_check B n =
     (if MSGSIZE \<le> n \<or> n \<le> 4 then Inl NoMessageData
      else if n \<noteq> unat (be16 B 0) + 4
        then Inl (PayloadLenMismatch (unat (be16 B 0)) (n - 4))
      else if computedCheck_loop B (unat (be16 B 0)) 0 0 \<noteq> be16 B (unat (be16 B 0) + 2)
        then Inl WrongChecksum
      else Inr (be16 B 0))"
  using word_of_nat_eq_plus4 [of n "be16 B 0"] be16_less [of B 0]
  by (auto simp: extractMsgs_check_def Let_def)

lemma length_msg_example: "length msg_example = MSGSIZE"
  by (simp add: msg_example_def MSGSIZE_def)

lemma check_msg_example: "extractMsgs_check msg_example 22 = Inr 18"
  by code_simp

text \<open>
  Claim C3. The decoded bytes are refused as \<^verbatim>\<open>No message data\<close> exactly when their
  number is at most 4 or at least 2050. Otherwise they are refused for their length
  (\<^verbatim>\<open>PayloadLen=..<>..=BytesRead\<close>) exactly when the number differs from the payload
  length plus 4, the payload length being the big-endian value of the first two bytes.
  What passes both checks, whether the checksum then fails or not, has payload length
  plus 4 bytes.
\<close>

theorem check_length:
  "(extractMsgs_check msg n = Inl NoMessageData) = (n \<le> 4 \<or> 2050 \<le> n) \<and>
   (4 < n \<and> n < 2050 \<longrightarrow>
      ((\<exists>a b. extractMsgs_check msg n = Inl (PayloadLenMismatch a b))
         = (n \<noteq> 256 * unat (msg ! 0) + unat (msg ! 1) + 4)) \<and>
      (n \<noteq> 256 * unat (msg ! 0) + unat (msg ! 1) + 4 \<longrightarrow>
         extractMsgs_check msg n
           = Inl (PayloadLenMismatch (256 * unat (msg ! 0) + unat (msg ! 1)) (n - 4)))) \<and>
   (extractMsgs_check msg n = Inl WrongChecksum \<longrightarrow>
      n = 256 * unat (msg ! 0) + unat (msg ! 1) + 4) \<and>
   (\<forall>payloadLen. extractMsgs_check msg n = Inr payloadLen \<longrightarrow>
      unat payloadLen = 256 * unat (msg ! 0) + unat (msg ! 1) \<and>
      n = unat payloadLen + 4)"
  unfolding extractMsgs_check_cases be16_unat MSGSIZE_def
  by (auto simp: be16_unat)

theorem check_length_witness:
  "extractMsgs_check msg_example 4 = Inl NoMessageData \<and>
   extractMsgs_check msg_example 2050 = Inl NoMessageData \<and>
   extractMsgs_check msg_example 21 = Inl (PayloadLenMismatch 18 17) \<and>
   extractMsgs_check msg_example 22 = Inr 18 \<and> (22::nat) = unat (18::uint) + 4"
proof -
  have b: "unat (msg_example ! 0) = 0" "unat (msg_example ! 1) = 18"
    by (simp_all add: msg_example_def)
  show ?thesis
    using check_length [of msg_example 4] check_length [of msg_example 2050]
      check_length [of msg_example 21] check_length [of msg_example 22]
      check_msg_example
    unfolding b by simp
qed

text \<open>
  Claim C2. When the checks accept the decoded bytes, the two bytes after the payload,
  read big-endian, are the sum of the payload bytes masked with \<open>0x7FFF\<close>; and the same
  bytes with any one payload byte replaced by a different value are refused for their
  checksum.
\<close>

theorem checksum_accepted:
  assumes len: "length msg = MSGSIZE"
    and ok: "extractMsgs_check msg n = Inr payloadLen"
  shows "n = unat payloadLen + 4 \<and>
         256 * unat (msg ! (unat payloadLen + 2)) + unat (msg ! (unat payloadLen + 3))
           = sum_list (map unat (take (unat payloadLen) (drop 2 msg))) AND 0x7FFF \<and>
         (\<forall>j v. j < unat payloadLen \<and> v \<noteq> msg ! (j + 2) \<longrightarrow>
            extractMsgs_check (msg[j + 2 := v]) n = Inl WrongChecksum)"
proof -
  let ?p = "unat (be16 msg 0)"
  from ok have n: "4 < n" "n < MSGSIZE" "n = ?p + 4"
    and pl: "payloadLen = be16 msg 0"
    and cc: "computedCheck_loop msg ?p 0 0 = be16 msg (?p + 2)"
    by (auto simp: extractMsgs_check_cases split: if_splits)
  have room: "?p + 2 \<le> length msg" using n len by simp
  have "unat (be16 msg (?p + 2)) = (\<Sum>k = 0..<?p. unat (msg ! (k + 2))) mod 32768"
    using computedCheck_loop_unat [of 0 0 ?p msg] cc by simp
  moreover have "unat (be16 msg (?p + 2))
      = 256 * unat (msg ! (?p + 2)) + unat (msg ! (?p + 3))"
  proof -
    have e: "?p + 2 + 1 = ?p + 3" by simp
    show ?thesis using be16_unat [of msg "?p + 2"] by (simp only: e)
  qed
  ultimately have sum: "256 * unat (msg ! (?p + 2)) + unat (msg ! (?p + 3))
      = sum_list (map unat (take ?p (drop 2 msg))) AND 0x7FFF"
    unfolding and_7FFF_nat payload_sum [OF room] by simp
  have "extractMsgs_check (msg[j + 2 := v]) n = Inl WrongChecksum"
    if j: "j < ?p" and v: "v \<noteq> msg ! (j + 2)" for j v
  proof -
    let ?m = "msg[j + 2 := v]"
    have b0: "be16 ?m 0 = be16 msg 0"
      by (rule be16_update_other) simp_all
    have b2: "be16 ?m (?p + 2) = be16 msg (?p + 2)"
      using j by (intro be16_update_other) simp_all
    have jl: "j + 2 < length msg" using j room by simp
    obtain R where R: "(\<Sum>k = 0..<?p. unat (msg ! (k + 2))) = unat (msg ! (j + 2)) + R"
        "(\<Sum>k = 0..<?p. unat (?m ! (k + 2))) = unat v + R"
      using payload_sum_update [OF j jl] by blast
    have ne: "unat v \<noteq> unat (msg ! (j + 2))"
      using v by (simp add: word_unat_eq_iff)
    have "unat (computedCheck_loop ?m ?p 0 0) = (unat v + R) mod 32768"
      using computedCheck_loop_unat [of 0 0 ?p ?m] R(2) by simp
    moreover have "unat (computedCheck_loop msg ?p 0 0) = (unat (msg ! (j + 2)) + R) mod 32768"
      using computedCheck_loop_unat [of 0 0 ?p msg] R(1) by simp
    ultimately have "unat (computedCheck_loop ?m ?p 0 0) \<noteq> unat (computedCheck_loop msg ?p 0 0)"
      using mod_differs [OF unat_byte_less_32768 unat_byte_less_32768 ne, of R] by simp
    then have "computedCheck_loop ?m ?p 0 0 \<noteq> be16 msg (?p + 2)"
      using cc by auto
    then show ?thesis
      unfolding extractMsgs_check_cases b0 b2 using n by simp
  qed
  then show ?thesis
    using n sum pl by simp
qed

theorem checksum_accepted_witness:
  "extractMsgs_check msg_example 22 = Inr 18 \<and>
   256 * unat (msg_example ! 20) + unat (msg_example ! 21) = 407 \<and>
   sum_list (map unat (take 18 (drop 2 msg_example))) AND 0x7FFF = 407 \<and>
   extractMsgs_check (msg_example[2 := 0x34]) 22 = Inl WrongChecksum"
proof -
  have p: "unat (18::uint) = 18" by simp
  have c: "256 * unat (msg_example ! 20) + unat (msg_example ! 21) = 407"
    by (simp add: msg_example_def)
  have m: "(0x34::byte) \<noteq> msg_example ! (0 + 2)"
    by (simp add: msg_example_def)
  from checksum_accepted [OF length_msg_example check_msg_example]
  have s: "256 * unat (msg_example ! 20) + unat (msg_example ! 21)
             = sum_list (map unat (take 18 (drop 2 msg_example))) AND 0x7FFF"
    and w: "\<And>j v. j < 18 \<Longrightarrow> v \<noteq> msg_example ! (j + 2) \<Longrightarrow>
             extractMsgs_check (msg_example[j + 2 := v]) 22 = Inl WrongChecksum"
    unfolding p by simp_all
  have e: "0 + 2 = (2::nat)" by simp
  from w [of 0 "0x34", OF _ m, unfolded e]
  have "extractMsgs_check (msg_example[2 := 0x34]) 22 = Inl WrongChecksum"
    by simp
  with s c check_msg_example show ?thesis by simp
qed

section \<open>One line of the input\<close>

lemma checkInterval_line_no_header:
  "checkInterval mktime_utc line_no_header 1388534400 1609459199"
  by code_simp

lemma strstr_line_no_header: "strstr line_no_header ''A0 A2'' = None"
  by code_simp

lemma checkInterval_line_no_tail:
  "checkInterval mktime_utc line_no_tail 1388534400 1609459199"
  by code_simp

lemma checkInterval_line_no_tail_2015:
  "\<not> checkInterval mktime_utc line_no_tail 1420070400 1609459199"
  by code_simp

lemma strstr_line_no_tail: "strstr line_no_tail ''A0 A2'' = Some 28"
  by code_simp

lemma strstr_tail_line_no_tail: "strstr (drop 33 line_no_tail) ''B0 B3'' = None"
  by code_simp

text \<open>
  Claim C1 says that a line without the head marker is skipped with a diagnostic and
  that the step never uses an invalid pointer. For a line inside the time window that
  does not hold \<^verbatim>\<open>A0 A2\<close>, \<^verbatim>\<open>extractMsgs\<close> passes \<^verbatim>\<open>header+5\<close>, computed from the
  \<open>NULL\<close> that \<^verbatim>\<open>strstr\<close> returned, to the second \<^verbatim>\<open>strstr\<close>; the test
  \<^verbatim>\<open>header==NULL\<close> comes one statement too late.
\<close>

theorem missing_header_fault:
  "checkInterval mktime GP2line fromT toT \<Longrightarrow> strstr GP2line ''A0 A2'' = None \<Longrightarrow>
   extractMsgs_line mktime WANTEDMsg fromT toT GP2line st = Inl NullPointerUse"
  by (simp add: extractMsgs_line_def)

theorem missing_header_fault_witness:
  "extractMsgs mktime_utc WANTEDMsg_init OSPmsg_init [line_no_header]
     1388534400 1609459199 sink_ok
   = Inl NullPointerUse"
  using missing_header_fault [OF checkInterval_line_no_header strstr_line_no_header]
  by (simp add: extractMsgs_def)

text \<open>
  Claim C5, as the program has it. The time window is tested first: a line whose time
  tag is outside the window, or is not converted, is logged as
  \<^verbatim>\<open>Time tag outside interval\<close> and skipped with nothing else changed, whatever
  follows the time tag. Only a line inside the window is searched for the head and the
  tail, and such a line with a head but no tail after it is logged as
  \<^verbatim>\<open>No message header or tailer\<close> and skipped.
\<close>

theorem time_filter_first:
  "(\<not> checkInterval mktime GP2line fromT toT \<longrightarrow>
      extractMsgs_line mktime WANTEDMsg fromT toT GP2line st
        = Inr (None, log_event TimeTagOutside st)) \<and>
   (checkInterval mktime GP2line fromT toT \<longrightarrow>
      (\<forall>header. strstr GP2line ''A0 A2'' = Some header \<and>
                strstr (drop (header + 5) GP2line) ''B0 B3'' = None \<longrightarrow>
         extractMsgs_line mktime WANTEDMsg fromT toT GP2line st
           = Inr (None, log_event NoHeaderOrTail st)))"
  by (simp add: extractMsgs_line_def)

theorem time_filter_first_witness:
  "extractMsgs_line mktime_utc WANTEDMsg_init 1420070400 1609459199 line_no_tail
       (xstate_init sink_ok)
     = Inr (None, log_event TimeTagOutside (xstate_init sink_ok)) \<and>
   extractMsgs_line mktime_utc WANTEDMsg_init 1388534400 1609459199 line_no_tail
       (xstate_init sink_ok)
     = Inr (None, log_event NoHeaderOrTail (xstate_init sink_ok))"
proof -
  have t: "strstr (drop (28 + 5) line_no_tail) ''B0 B3'' = None"
    using strstr_tail_line_no_tail by simp
  show ?thesis
    using time_filter_first [of mktime_utc line_no_tail 1420070400 1609459199 WANTEDMsg_init
        "xstate_init sink_ok"]
      time_filter_first [of mktime_utc line_no_tail 1388534400 1609459199 WANTEDMsg_init
        "xstate_init sink_ok"]
      checkInterval_line_no_tail checkInterval_line_no_tail_2015 strstr_line_no_tail t
    by blast
qed

text \<open>
  The claim as it was stated fails on \<open>line_no_tail\<close> with the window starting in 2015:
  the extraction of this line fails, for it has a head and no tail, and yet what the
  run logs for it is the decision of the time window, not the failed extraction.
\<close>

theorem extraction_first_counterexample:
  "strstr line_no_tail ''A0 A2'' = Some 28 \<and>
   strstr (drop (28 + 5) line_no_tail) ''B0 B3'' = None \<and>
   extractMsgs mktime_utc WANTEDMsg_init OSPmsg_init [line_no_tail]
       1420070400 1609459199 sink_ok
     = Inr (0, \<lparr>OSPmsg = OSPmsg_init, outFile = sink_ok,
                plog = [TimeTagOutside], nMessages = 0\<rparr>) \<and>
   [TimeTagOutside] \<noteq> [NoHeaderOrTail]"
  using strstr_line_no_tail strstr_tail_line_no_tail checkInterval_line_no_tail_2015
  by (simp add: extractMsgs_def extractMsgs_line_def log_event_def)

section \<open>The run over all lines\<close>

subsection \<open>What the decoding loop leaves in the buffer\<close>

lemma extractMsgs_bytes_decoded:
  "length B = MSGSIZE \<Longrightarrow> n \<le> MSGSIZE \<Longrightarrow>
   extractMsgs_bytes l h t n B =
     (n + length (decoded l h t (MSGSIZE - n)),
      take n B @ decoded l h t (MSGSIZE - n) @ drop (n + length (decoded l h t (MSGSIZE - n))) B)"
proof (induction l h t n B rule: extractMsgs_bytes.induct)
  case (1 l h t n B)
  show ?case
  proof (cases "h < t \<and> n < MSGSIZE")
    case True
    show ?thesis
    proof (cases "scan_x (drop h l)")
      case None
      have "extractMsgs_bytes l t t n B = (n, B)"
        by (subst extractMsgs_bytes.simps) simp
      moreover have "decoded l h t (MSGSIZE - n) = []"
        using True None by (subst decoded.simps) simp
      ultimately show ?thesis
        using True None by (subst extractMsgs_bytes.simps) simp
    next
      case (Some ui)
      let ?B = "B[n := ucast ui]" and ?bs = "decoded l (h + 3) t (MSGSIZE - (n + 1))"
      have d: "decoded l h t (MSGSIZE - n) = ucast ui # ?bs"
        using True Some by (subst decoded.simps) simp
      have "extractMsgs_bytes l h t n B = extractMsgs_bytes l (h + 3) t (n + 1) ?B"
        using True Some by (subst extractMsgs_bytes.simps) simp
      also have "\<dots> = (n + 1 + length ?bs, take (n + 1) ?B @ ?bs @ drop (n + 1 + length ?bs) ?B)"
        using "1.IH"(2) [OF True Some] "1.prems" True by simp
      also have "take (n + 1) ?B = take n B @ [ucast ui]"
        using True "1.prems" by (simp add: take_Suc_conv_app_nth)
      also have "drop (n + 1 + length ?bs) ?B = drop (n + 1 + length ?bs) B"
        by simp
      finally show ?thesis by (simp add: d)
    qed
  next
    case False
    moreover have "decoded l h t (MSGSIZE - n) = []"
      using False by (subst decoded.simps) auto
    ultimately show ?thesis by (subst extractMsgs_bytes.simps) auto
  qed
qed

subsection \<open>The line \<open>line_ok\<close>\<close>

lemma decoded_line_ok: "decoded line_ok 34 49 2050 = [0, 1, 0x33, 0, 0x33]"
  by code_simp

lemma checkInterval_line_ok: "checkInterval mktime_utc line_ok 1388534400 1609459199"
  by code_simp

lemma strstr_line_ok: "strstr line_ok ''A0 A2'' = Some 28"
  by code_simp

lemma strstr_tail_line_ok: "strstr (drop 33 line_ok) ''B0 B3'' = Some 16"
  by code_simp

lemma check_line_ok: "extractMsgs_check (0 # 1 # 0x33 # 0 # 0x33 # bs) 5 = Inr 1"
  by (simp add: extractMsgs_check_def be16_def computedCheck_loop.simps MSGSIZE_def)

lemma line_ok_step:
  assumes "length (OSPmsg st) = MSGSIZE" and "wantedMsg W 0x33"
  shows "extractMsgs_line mktime_utc W 1388534400 1609459199 line_ok st =
     (let buf = [0, 1, 0x33, 0, 0x33] @ drop 5 (OSPmsg st);
          st1 = st\<lparr>OSPmsg := buf\<rparr>;
          (r, out) = fwrite buf 3 (outFile st1)
      in if r = 3
         then (if nMessages st1 = INT_MAX then Inl IntOverflow
               else Inr (None, log_event (WrittenMID 0x33)
                      (st1\<lparr>outFile := out, nMessages := nMessages st1 + 1\<rparr>)))
         else (if - nMessages st1 - 4 < INT_MIN then Inl IntOverflow
               else Inr (Some (- nMessages st1 - 4), log_event CannotWrite (st1\<lparr>outFile := out\<rparr>))))"
proof -
  have b: "extractMsgs_bytes line_ok 34 49 0 (OSPmsg st)
             = (5, 0 # 1 # 0x33 # 0 # 0x33 # drop 5 (OSPmsg st))"
  proof -
    have d: "decoded line_ok 34 49 (MSGSIZE - 0) = [0, 1, 0x33, 0, 0x33]"
      by (simp add: MSGSIZE_def decoded_line_ok)
    have l: "0 + length [0, 1, 0x33, 0, 0x33 :: byte] = 5"
      by simp
    show ?thesis
      using extractMsgs_bytes_decoded [OF assms(1), of 0 line_ok 34 49]
      unfolding d l by simp
  qed
  show ?thesis
    unfolding extractMsgs_line_def
    by (simp add: checkInterval_line_ok strstr_line_ok strstr_tail_line_ok b check_line_ok
          assms(2) Let_def fwrite_def numeral_3_eq_3)
qed

lemma wantedMsg_all: "wantedMsg WANTEDMsg_all mid"
  by (simp add: wantedMsg_def WANTEDMsg_all_def WANTEDMsg_init_def)

lemma length_OSPmsg_init: "length OSPmsg_init = MSGSIZE"
  by (simp add: OSPmsg_init_def)

lemma run_fail_second:
  "extractMsgs mktime_utc WANTEDMsg_all OSPmsg_init [line_ok, line_ok, line_no_header]
      1388534400 1609459199 (sink_failing 1)
   = Inr (- 5, \<lparr>OSPmsg = [0, 1, 0x33, 0, 0x33] @ drop 5 OSPmsg_init,
               outFile = \<lparr>accepts = (\<lambda>j. if j = 1 then 0 else 65537),
                           calls = [(3, 3), (3, 0)], written = [0, 1, 0x33]\<rparr>,
               plog = [WrittenMID 0x33, CannotWrite], nMessages = 1\<rparr>)"
  by (simp add: extractMsgs_def line_ok_step wantedMsg_all length_OSPmsg_init MSGSIZE_def
        fwrite_def sink_failing_def log_event_def INT_MAX_def INT_MIN_def Let_def)

subsection \<open>The counter and the record of the writes\<close>

lemma all_written_nth:
  "all_written cs \<Longrightarrow> i < length cs \<Longrightarrow> snd (cs ! i) = fst (cs ! i)"
  by (simp add: all_written_def list_all_length case_prod_beta)

lemma line_continue:
  assumes "extractMsgs_line mk W f t l st = Inr (None, st')"
  shows "(calls (outFile st') = calls (outFile st) \<and> nMessages st' = nMessages st) \<or>
         (\<exists>req. calls (outFile st') = calls (outFile st) @ [(req, req)] \<and>
                nMessages st' = nMessages st + 1)"
  using assms
  by (auto simp: extractMsgs_line_def fwrite_def log_event_def Let_def
           split: if_splits option.splits sum.splits prod.splits)

lemma line_return:
  assumes "extractMsgs_line mk W f t l st = Inr (Some r, st')"
  shows "\<exists>req got. got < req \<and> calls (outFile st') = calls (outFile st) @ [(req, got)] \<and>
           r = - nMessages st - 4 \<and> nMessages st' = nMessages st \<and>
           plog st' = plog st @ [CannotWrite]"
  using assms
  by (auto simp: extractMsgs_line_def fwrite_def log_event_def Let_def
           split: if_splits option.splits sum.splits prod.splits)

lemma loop_result:
  assumes "extractMsgs_loop mk W f t ls st = Inr (r, st')"
    and "all_written (calls (outFile st))"
    and "nMessages st = int (length (calls (outFile st)))"
  shows "(r = int (length (calls (outFile st'))) \<and> all_written (calls (outFile st'))) \<or>
         (\<exists>cs req got. calls (outFile st') = cs @ [(req, got)] \<and> got < req \<and> all_written cs \<and>
            r = - int (length cs) - 4 \<and> nMessages st' = int (length cs) \<and>
            last (plog st') = CannotWrite)"
  using assms
proof (induction ls arbitrary: st)
  case Nil
  then show ?case by auto
next
  case (Cons l ls)
  show ?case
  proof (cases "extractMsgs_line mk W f t l st")
    case (Inl flt)
    with Cons.prems(1) show ?thesis by simp
  next
    case (Inr res)
    obtain ret st1 where res: "res = (ret, st1)" by (cases res)
    show ?thesis
    proof (cases ret)
      case None
      with Inr res have step: "extractMsgs_line mk W f t l st = Inr (None, st1)" by simp
      with Cons.prems(1) have run: "extractMsgs_loop mk W f t ls st1 = Inr (r, st')" by simp
      from line_continue [OF step] Cons.prems(2,3)
      have "all_written (calls (outFile st1))"
        and "nMessages st1 = int (length (calls (outFile st1)))"
        by (auto simp: all_written_def)
      with Cons.IH [OF run] show ?thesis by simp
    next
      case (Some r')
      with Inr res have step: "extractMsgs_line mk W f t l st = Inr (Some r', st1)" by simp
      with Cons.prems(1) have "r = r'" "st' = st1" by simp_all
      with line_return [OF step] Cons.prems(2,3) show ?thesis by auto
    qed
  qed
qed

lemma loop_stops:
  assumes "extractMsgs_loop mk W f t ls st = Inr (r, st')" and "r < 0" and "0 \<le> nMessages st"
  shows "extractMsgs_loop mk W f t (ls @ further) st = Inr (r, st')"
  using assms
proof (induction ls arbitrary: st)
  case Nil
  then show ?case by simp
next
  case (Cons l ls)
  show ?case
  proof (cases "extractMsgs_line mk W f t l st")
    case (Inl flt)
    with Cons.prems(1) show ?thesis by simp
  next
    case (Inr res)
    obtain ret st1 where res: "res = (ret, st1)" by (cases res)
    show ?thesis
    proof (cases ret)
      case None
      with Inr res have step: "extractMsgs_line mk W f t l st = Inr (None, st1)" by simp
      with Cons.prems(1) have run: "extractMsgs_loop mk W f t ls st1 = Inr (r, st')" by simp
      from line_continue [OF step] Cons.prems(3) have "0 \<le> nMessages st1" by auto
      from Cons.IH [OF run Cons.prems(2) this] step show ?thesis by simp
    next
      case (Some r')
      with Inr res Cons.prems(1) show ?thesis by simp
    qed
  qed
qed

text \<open>
  Claim C4. Let a run of \<^verbatim>\<open>extractMsgs\<close> on a fresh output file return \<open>r\<close>, and let
  the \<open>k\<close>-th call of \<^verbatim>\<open>fwrite\<close> of the run, the one for the \<open>k\<close>-th message that passed
  all filters, have reported fewer bytes than requested. Then \<open>r = -(k-1) - 4\<close>, a
  negative value from which the number \<open>k-1\<close> of messages written before is recovered
  as \<open>-r - 4\<close>; the \<open>k-1\<close> calls before wrote all they were asked to; the failing call
  is the last one; and no later line is looked at: the result and the final state are
  the same whatever lines follow.
\<close>

theorem write_failure:
  assumes run: "extractMsgs mk W B0 inFile fromT toT out = Inr (r, st)"
    and fresh: "calls out = []"
    and k: "1 \<le> k" "k \<le> length (calls (outFile st))"
    and short: "snd (calls (outFile st) ! (k - 1)) < fst (calls (outFile st) ! (k - 1))"
  shows "r = - (int k - 1) - 4 \<and> r < 0 \<and> nMessages st = int k - 1 \<and>
         length (calls (outFile st)) = k \<and>
         all_written (take (k - 1) (calls (outFile st))) \<and>
         last (plog st) = CannotWrite \<and>
         (\<forall>further. extractMsgs mk W B0 (inFile @ further) fromT toT out = Inr (r, st))"
proof -
  let ?st0 = "\<lparr>OSPmsg = B0, outFile = out, plog = [], nMessages = 0\<rparr>"
  have loop: "extractMsgs_loop mk W fromT toT inFile ?st0 = Inr (r, st)"
    using run by (simp add: extractMsgs_def)
  have i1: "all_written (calls (outFile ?st0))"
    and i2: "nMessages ?st0 = int (length (calls (outFile ?st0)))"
    using fresh by (simp_all add: all_written_def)
  from loop_result [OF loop i1 i2]
  consider (full) "all_written (calls (outFile st))"
    | (failed) cs req got where "calls (outFile st) = cs @ [(req, got)]" "got < req"
        "all_written cs" "r = - int (length cs) - 4" "nMessages st = int (length cs)"
        "last (plog st) = CannotWrite"
    by blast
  then show ?thesis
  proof cases
    case full
    then have "snd (calls (outFile st) ! (k - 1)) = fst (calls (outFile st) ! (k - 1))"
      using k by (intro all_written_nth) simp_all
    with short show ?thesis by simp
  next
    case failed
    have "k - 1 = length cs"
    proof (rule ccontr)
      assume "k - 1 \<noteq> length cs"
      with k failed(1) have lt: "k - 1 < length cs" by simp
      then have "calls (outFile st) ! (k - 1) = cs ! (k - 1)"
        using failed(1) by (simp add: nth_append)
      moreover have "snd (cs ! (k - 1)) = fst (cs ! (k - 1))"
        using failed(3) lt by (rule all_written_nth)
      ultimately show False using short by simp
    qed
    moreover have "r < 0" using failed(4) by simp
    moreover from loop_stops [OF loop this]
    have "extractMsgs mk W B0 (inFile @ further) fromT toT out = Inr (r, st)" for further
      by (simp add: extractMsgs_def)
    ultimately show ?thesis
      using failed k by auto
  qed
qed

theorem write_failure_witness:
  "\<exists>st. extractMsgs mktime_utc WANTEDMsg_all OSPmsg_init [line_ok, line_ok, line_no_header]
            1388534400 1609459199 (sink_failing 1) = Inr (- 5, st) \<and>
        calls (outFile st) = [(3, 3), (3, 0)] \<and> nMessages st = 1 \<and>
        extractMsgs mktime_utc WANTEDMsg_all OSPmsg_init
            ([line_ok, line_ok, line_no_header] @ [line_ok, line_ok])
            1388534400 1609459199 (sink_failing 1) = Inr (- 5, st)"
proof -
  let ?st = "\<lparr>OSPmsg = [0, 1, 0x33, 0, 0x33] @ drop 5 OSPmsg_init,
              outFile = \<lparr>accepts = (\<lambda>j. if j = 1 then 0 else 65537),
                          calls = [(3, 3), (3, 0)], written = [0, 1, 0x33 :: byte]\<rparr>,
              plog = [WrittenMID 0x33, CannotWrite], nMessages = 1\<rparr>"
  have fresh: "calls (sink_failing 1) = []"
    by (simp add: sink_failing_def)
  have k: "1 \<le> (2::nat)" "2 \<le> length (calls (outFile ?st))"
    by simp_all
  have short: "snd (calls (outFile ?st) ! (2 - 1)) < fst (calls (outFile ?st) ! (2 - 1))"
    by simp
  from write_failure [OF run_fail_second fresh k short]
  have "nMessages ?st = int 2 - 1"
    and "extractMsgs mktime_utc WANTEDMsg_all OSPmsg_init
            ([line_ok, line_ok, line_no_header] @ [line_ok, line_ok])
            1388534400 1609459199 (sink_failing 1) = Inr (- 5, ?st)"
    by blast+
  with run_fail_second show ?thesis
    by (intro exI [of _ ?st]) simp
qed

end
